theory Spec2Isabelle
  imports Complex_Main "HOL-Library.Word" "HOL-Library.Signed_Division"
begin

section \<open>Data model of the pager\<close>

text \<open>
  A region is PolyVox's axis-aligned box of voxel coordinates; both corners belong to it.
  The getters return C++ \<open>int32_t\<close>. Signed overflow is undefined in C++, so coordinates
  are mathematical integers: the model is the program wherever no \<open>int\<close> operation
  leaves the 32-bit range.
\<close>

record Region =
  LowerX :: int
  LowerY :: int
  LowerZ :: int
  UpperX :: int
  UpperY :: int
  UpperZ :: int

text \<open>
  Modelled from the spec: the voxel type \<open>MaterialDensityPair44\<close> is declared by the
  PolyVox library, outside the source at hand; the data model gives it two unsigned 8-bit
  fields, density and material. \<open>setDensity\<close> and \<open>setMaterial\<close> store their argument
  in the field.
\<close>

record Voxel =
  material :: "8 word"
  density :: "8 word"

definition setDensity :: "8 word \<Rightarrow> Voxel \<Rightarrow> Voxel" where
  "setDensity d v = v\<lparr>density := d\<rparr>"

definition setMaterial :: "8 word \<Rightarrow> Voxel \<Rightarrow> Voxel" where
  "setMaterial m v = v\<lparr>material := m\<rparr>"

text \<open>
  A chunk stores voxels by chunk-local coordinates. It is a finite map here, so that a
  cell that was never written is \<open>None\<close>; \<open>setVoxel\<close> overwrites one cell.
\<close>

type_synonym Chunk = "int \<times> int \<times> int \<rightharpoonup> Voxel"

definition setVoxel :: "Chunk \<Rightarrow> int \<Rightarrow> int \<Rightarrow> int \<Rightarrow> Voxel \<Rightarrow> Chunk" where
  "setVoxel chunk x y z v = chunk((x, y, z) \<mapsto> v)"

text \<open>The pager's members, set once by its constructor.\<close>

record VoxelTerrainPager =
  Seed :: "32 word"
  NoiseOctaves :: "32 word"
  NoiseFrequency :: real
  NoiseScale :: real
  NoiseOffset :: real
  TerrainHeight :: real

section \<open>The noise kernel built by pageIn\<close>

text \<open>
  \<open>pageIn\<close> builds its noise graph with calls to the kernel of the noise library. Each
  call adds one instruction; the datatype below has one constructor per call the source
  makes, with the arguments in the source's order. Float constants are the reals they
  denote.
\<close>

datatype BasisTypes = BASIS_SIMPLEX

datatype InterpolationTypes = INTERP_LINEAR

datatype node =
    Constant real
  | AxisZ
  | Subtract node node
  | Divide node node
  | Clamp node node node
  | Select node node node node node
  | SimplefBm BasisTypes InterpolationTypes "32 word" real "32 word"
  | ScaleOffset node real real
  | ScaleZ node node
  | TranslateZ node node
  | SimpleRidgedMultifractal BasisTypes InterpolationTypes "32 word" real "32 word"

record TerrainKernel =
  PerturbGradient :: node
  GrassZ :: node
  OreFractal :: node

definition buildKernel :: "VoxelTerrainPager \<Rightarrow> TerrainKernel" where
  "buildKernel pager =
     (let Zero = Constant 0;
          One = Constant 1;
          VerticalHeight = Constant (TerrainHeight pager);
          HalfVerticalHeight = Constant (TerrainHeight pager / 2);
          VerticalGradient =
            Divide (Clamp (Subtract VerticalHeight AxisZ) Zero VerticalHeight) VerticalHeight;
          VerticalSelect = Select Zero One VerticalGradient (Constant 0.5) Zero;
          TerrainFractal =
            SimplefBm BASIS_SIMPLEX INTERP_LINEAR (NoiseOctaves pager) (NoiseFrequency pager)
              (Seed pager);
          TerrainScale = ScaleOffset TerrainFractal (NoiseScale pager) (NoiseOffset pager);
          TerrainZScale = ScaleZ TerrainScale Zero
      in \<lparr>PerturbGradient = TranslateZ VerticalSelect TerrainZScale,
          GrassZ = Subtract HalfVerticalHeight TerrainZScale,
          OreFractal =
            SimpleRidgedMultifractal BASIS_SIMPLEX INTERP_LINEAR 2 (5 * NoiseFrequency pager)
              (Seed pager)\<rparr>)"

text \<open>
  The executor of the noise library, \<open>evaluateScalar(x, y, z, node)\<close>, is outside the
  source at hand. It is a parameter of the model: a function of the coordinate and the
  node, with the doubles it returns read as reals.
\<close>

type_synonym executor = "real \<Rightarrow> real \<Rightarrow> real \<Rightarrow> node \<Rightarrow> real"

text \<open>
  Modelled from the spec: \<open>FMath::FloorToInt\<close> is engine code outside the source at hand;
  the spec reads it as the floor of its argument.
\<close>

definition FloorToInt :: "real \<Rightarrow> int" where
  "FloorToInt r = \<lfloor>r\<rfloor>"

section \<open>pageIn and pageOut\<close>

text \<open>The body of the innermost loop of \<open>pageIn\<close>: the voxel for one coordinate.\<close>

definition terrainVoxel :: "executor \<Rightarrow> TerrainKernel \<Rightarrow> int \<Rightarrow> int \<Rightarrow> int \<Rightarrow> Voxel" where
  "terrainVoxel exec k x y z =
     (let EvaluatedNoise = exec (real_of_int x) (real_of_int y) (real_of_int z) (PerturbGradient k);
          bSolid = (EvaluatedNoise > 0.5);
          voxel = setDensity (if bSolid then 255 else 0) \<lparr>material = 0, density = 0\<rparr>;
          ActualGrassZ =
            FloorToInt (exec (real_of_int x) (real_of_int y) (real_of_int z) (GrassZ k));
          DirtZ = ActualGrassZ - 1;
          DirtThickness = 3
      in if bSolid then
           (if z \<ge> ActualGrassZ then setMaterial 3 voxel
            else if z \<le> DirtZ \<and> z > DirtZ - DirtThickness then setMaterial 2 voxel
            else
              (let EvaluatedOreFractal =
                     exec (real_of_int x) (real_of_int y) (real_of_int z) (OreFractal k)
               in if EvaluatedOreFractal > 1.95 then setMaterial 4 voxel
                  else setMaterial 1 voxel))
         else setMaterial 0 voxel)"

text \<open>
  The three nested loops. \<open>[a..b]\<close> is the ascending list of the integers from \<open>a\<close> to
  \<open>b\<close>, empty when \<open>b < a\<close>, as the loop \<open>for (i = a; i <= b; i++)\<close> visits them. The
  bound of the y loop is \<open>region.getUpperY() / 2\<close>; C++ division truncates towards zero,
  which is \<open>sdiv\<close>.
\<close>

definition pageIn :: "executor \<Rightarrow> VoxelTerrainPager \<Rightarrow> Region \<Rightarrow> Chunk \<Rightarrow> Chunk" where
  "pageIn exec pager region chunk =
     (let k = buildKernel pager
      in fold (\<lambda>x.
           fold (\<lambda>y.
             fold (\<lambda>z c.
                 setVoxel c (x - LowerX region) (y - LowerY region) (z - LowerZ region)
                   (terrainVoxel exec k x y z))
               [LowerZ region..UpperZ region])
             [LowerY region..UpperY region sdiv 2])
           [LowerX region..UpperX region] chunk)"

text \<open>\<open>pageOut\<close> has an empty body: the pager and the chunk come back as they were.\<close>

definition pageOut :: "VoxelTerrainPager \<Rightarrow> Region \<Rightarrow> Chunk \<Rightarrow> VoxelTerrainPager \<times> Chunk" where
  "pageOut pager region chunk = (pager, chunk)"

text \<open>The global coordinates the loops of \<open>pageIn\<close> visit.\<close>

definition visited :: "Region \<Rightarrow> (int \<times> int \<times> int) set" where
  "visited region =
     {LowerX region..UpperX region} \<times> {LowerY region..UpperY region sdiv 2}
       \<times> {LowerZ region..UpperZ region}"

section \<open>Raw mesh and material sections\<close>

text \<open>
  The decoded mesh of the surface extractor: vertices that carry a position and the voxel
  they were cut from, and a sequence of indices into the vertices, three per triangle.
  Positions are values of the extractor's vector type \<open>'p\<close>.
\<close>

record 'p MeshVertex =
  position :: 'p
  data :: Voxel

record 'p RawMesh =
  vertices :: "'p MeshVertex list"
  indices :: "nat list"

definition getMaterial :: "Voxel \<Rightarrow> 8 word" where
  "getMaterial v = material v"

text \<open>
  \<open>getIndex\<close> and \<open>getVertex\<close> read a \<open>std::vector\<close> without a bounds check. A read
  past the end is undefined behaviour in C++; the model makes it an error value that ends
  the run.
\<close>

datatype error = IndexOutOfRange nat | VertexOutOfRange nat

definition getNoOfIndices :: "'p RawMesh \<Rightarrow> nat" where
  "getNoOfIndices mesh = length (indices mesh)"

definition getIndex :: "'p RawMesh \<Rightarrow> nat \<Rightarrow> error + nat" where
  "getIndex mesh i = (if i < length (indices mesh) then Inr (indices mesh ! i) else Inl (IndexOutOfRange i))"

definition getVertex :: "'p RawMesh \<Rightarrow> nat \<Rightarrow> error + 'p MeshVertex" where
  "getVertex mesh n = (if n < length (vertices mesh) then Inr (vertices mesh ! n) else Inl (VertexOutOfRange n))"

text \<open>
  The vector arithmetic of the engine is floating point and outside the source at hand.
  It is a parameter: \<open>scaled p\<close> is \<open>FPolyVoxVector(p) * 100.f\<close>, \<open>edge p q\<close> is
  \<open>FPolyVoxVector(p - q)\<close>, \<open>cross a b\<close> is \<open>a ^ b\<close>, and \<open>GetSafeNormal\<close> is the
  engine's function of that name. \<open>'v\<close> is the engine's vector type.
\<close>

record ('p, 'v) VectorOps =
  scaled :: "'p \<Rightarrow> 'v"
  edge :: "'p \<Rightarrow> 'p \<Rightarrow> 'v"
  cross :: "'v \<Rightarrow> 'v \<Rightarrow> 'v"
  GetSafeNormal :: "'v \<Rightarrow> 'v"

text \<open>
  The arrays handed to \<open>CreateMeshSection\<close> for one material. A tangent is the pair that
  \<open>FProcMeshTangent(TangentX, false)\<close> holds. \<open>UV0\<close> and \<open>Colors\<close> stay empty in the
  source and are left out.
\<close>

record 'v MeshSection =
  Vertices :: "'v list"
  Indices :: "nat list"
  Normals :: "'v list"
  Tangents :: "('v \<times> bool) list"

definition emptySection :: "'v MeshSection" where
  "emptySection = \<lparr>Vertices = [], Indices = [], Normals = [], Tangents = []\<rparr>"

text \<open>
  \<open>Indices.Add(Vertices.Add(p))\<close>: \<open>TArray::Add\<close> appends and returns the position of
  the new element, which is the length of the array before the call.
\<close>

definition addVertex :: "'v \<Rightarrow> 'v MeshSection \<Rightarrow> 'v MeshSection" where
  "addVertex p s = s\<lparr>Vertices := Vertices s @ [p], Indices := Indices s @ [length (Vertices s)]\<rparr>"

text \<open>The loop that adds the tangent and the normal three times.\<close>

definition addTangents :: "'v \<Rightarrow> 'v \<Rightarrow> 'v MeshSection \<Rightarrow> 'v MeshSection" where
  "addTangents TangentX TangentZ s =
     fold (\<lambda>i s. s\<lparr>Tangents := Tangents s @ [(TangentX, False)], Normals := Normals s @ [TangentZ]\<rparr>)
       [0..<3] s"

text \<open>
  The body of the loop over the index positions, for the section of \<open>Material\<close> (counted
  from 0) and the position \<open>i\<close>. \<open>i\<close> is a \<open>uint32\<close>, so \<open>i + 2\<close> and \<open>i + 1\<close> wrap at
  \<open>2 ^ 32\<close>.
\<close>

definition triangleStep ::
  "('p, 'v) VectorOps \<Rightarrow> 'p RawMesh \<Rightarrow> nat \<Rightarrow> nat \<Rightarrow> 'v MeshSection \<Rightarrow> error + 'v MeshSection" where
  "triangleStep ops mesh Material i s =
     (case getIndex mesh ((i + 2) mod 2 ^ 32) of Inl e \<Rightarrow> Inl e | Inr Index2 \<Rightarrow>
      case getVertex mesh Index2 of Inl e \<Rightarrow> Inl e | Inr Vertex2 \<Rightarrow>
      if unat (getMaterial (data Vertex2)) = Material + 1 then
        (let s2 = addVertex (scaled ops (position Vertex2)) s in
         case getIndex mesh ((i + 1) mod 2 ^ 32) of Inl e \<Rightarrow> Inl e | Inr Index1 \<Rightarrow>
         case getVertex mesh Index1 of Inl e \<Rightarrow> Inl e | Inr Vertex1 \<Rightarrow>
         let s1 = addVertex (scaled ops (position Vertex1)) s2 in
         case getIndex mesh i of Inl e \<Rightarrow> Inl e | Inr Index0 \<Rightarrow>
         case getVertex mesh Index0 of Inl e \<Rightarrow> Inl e | Inr Vertex0 \<Rightarrow>
         let s0 = addVertex (scaled ops (position Vertex0)) s1;
             Edge01 = edge ops (position Vertex1) (position Vertex0);
             Edge02 = edge ops (position Vertex2) (position Vertex0);
             TangentX = GetSafeNormal ops Edge01;
             TangentZ = GetSafeNormal ops (cross ops Edge01 Edge02)
         in Inr (addTangents TangentX TangentZ s0))
      else Inr s)"

text \<open>
  The loop bound \<open>getNoOfIndices() - 2\<close> is computed in the unsigned type of the index
  count, whose declaration is outside the source at hand; its width \<open>w\<close> (at least 32) is
  a parameter. The subtraction wraps at \<open>2 ^ w\<close>.
\<close>

definition loopBound :: "nat \<Rightarrow> 'p RawMesh \<Rightarrow> nat" where
  "loopBound w mesh = (getNoOfIndices mesh + 2 ^ w - 2) mod 2 ^ w"

text \<open>
  The loop \<open>for (uint32 i = 0; i < getNoOfIndices() - 2; i += 3)\<close>, from position \<open>i\<close>
  on. \<open>None\<close> is a loop that never ends; \<open>Some (Inl e)\<close> is a read out of range.
\<close>

partial_function (option) triangleLoop ::
  "('p, 'v) VectorOps \<Rightarrow> nat \<Rightarrow> 'p RawMesh \<Rightarrow> nat \<Rightarrow> nat \<Rightarrow> 'v MeshSection
     \<Rightarrow> (error + 'v MeshSection) option" where
  "triangleLoop ops w mesh Material i s =
     (if i < loopBound w mesh then
        (case triangleStep ops mesh Material i s of
           Inl e \<Rightarrow> Some (Inl e)
         | Inr s' \<Rightarrow> triangleLoop ops w mesh Material ((i + 3) mod 2 ^ 32) s')
      else Some (Inr s))"

text \<open>
  The loop over the materials. Each round starts from empty arrays and hands its arrays to
  \<open>CreateMeshSection(Material, ...)\<close>; the result lists the sections by \<open>Material\<close>.
\<close>

fun createSections ::
  "('p, 'v) VectorOps \<Rightarrow> nat \<Rightarrow> 'p RawMesh \<Rightarrow> nat list \<Rightarrow> (error + 'v MeshSection list) option" where
  "createSections ops w mesh [] = Some (Inr [])"
| "createSections ops w mesh (Material # rest) =
     (case triangleLoop ops w mesh Material 0 emptySection of
        None \<Rightarrow> None
      | Some (Inl e) \<Rightarrow> Some (Inl e)
      | Some (Inr s) \<Rightarrow>
          (case createSections ops w mesh rest of
             None \<Rightarrow> None
           | Some (Inl e) \<Rightarrow> Some (Inl e)
           | Some (Inr ss) \<Rightarrow> Some (Inr (s # ss))))"

text \<open>\<open>M\<close> is \<open>TerrainMaterials.Num\<close>, the number of materials.\<close>

definition partitionMesh ::
  "('p, 'v) VectorOps \<Rightarrow> nat \<Rightarrow> nat \<Rightarrow> 'p RawMesh \<Rightarrow> (error + 'v MeshSection list) option" where
  "partitionMesh ops w M mesh = createSections ops w mesh [0..<M]"

section \<open>Auxiliary definitions for the statements\<close>

text \<open>The chunk-local coordinate of a global one: the global coordinate minus the lower corner.\<close>

definition localOf :: "Region \<Rightarrow> int \<times> int \<times> int \<Rightarrow> int \<times> int \<times> int" where
  "localOf region = (\<lambda>(x, y, z). (x - LowerX region, y - LowerY region, z - LowerZ region))"

text \<open>
  The raw index sequence is walked in triples; triangle \<open>t\<close> is the triple at the
  positions \<open>3 t\<close>, \<open>3 t + 1\<close>, \<open>3 t + 2\<close>, and \<open>corner mesh t j\<close> is its \<open>j\<close>-th vertex.
  The reference material of a triangle is the material of its third vertex.
\<close>

definition triangleCount :: "'p RawMesh \<Rightarrow> nat" where
  "triangleCount mesh = length (indices mesh) div 3"

definition corner :: "'p RawMesh \<Rightarrow> nat \<Rightarrow> nat \<Rightarrow> 'p MeshVertex" where
  "corner mesh t j = vertices mesh ! (indices mesh ! (3 * t + j))"

definition referenceMaterial :: "'p RawMesh \<Rightarrow> nat \<Rightarrow> nat" where
  "referenceMaterial mesh t = unat (getMaterial (data (corner mesh t 2)))"

definition flatTangent :: "('p, 'v) VectorOps \<Rightarrow> 'p RawMesh \<Rightarrow> nat \<Rightarrow> 'v" where
  "flatTangent ops mesh t =
     GetSafeNormal ops (edge ops (position (corner mesh t 1)) (position (corner mesh t 0)))"

definition flatNormal :: "('p, 'v) VectorOps \<Rightarrow> 'p RawMesh \<Rightarrow> nat \<Rightarrow> 'v" where
  "flatNormal ops mesh t =
     GetSafeNormal ops
       (cross ops (edge ops (position (corner mesh t 1)) (position (corner mesh t 0)))
          (edge ops (position (corner mesh t 2)) (position (corner mesh t 0))))"

text \<open>What one triangle adds to the arrays of a section when it is taken.\<close>

definition emitTriangle ::
  "('p, 'v) VectorOps \<Rightarrow> 'p RawMesh \<Rightarrow> nat \<Rightarrow> 'v MeshSection \<Rightarrow> 'v MeshSection" where
  "emitTriangle ops mesh t s =
     \<lparr>Vertices = Vertices s @ [scaled ops (position (corner mesh t 2)),
                               scaled ops (position (corner mesh t 1)),
                               scaled ops (position (corner mesh t 0))],
      Indices = Indices s @ [length (Vertices s), length (Vertices s) + 1, length (Vertices s) + 2],
      Normals = Normals s @ replicate 3 (flatNormal ops mesh t),
      Tangents = Tangents s @ replicate 3 (flatTangent ops mesh t, False)\<rparr>"

text \<open>The triangles whose reference material is \<open>m\<close>, in the order of the raw index sequence.\<close>

definition included :: "'p RawMesh \<Rightarrow> nat \<Rightarrow> nat list" where
  "included mesh m = filter (\<lambda>t. referenceMaterial mesh t = m) [0..<triangleCount mesh]"

text \<open>The loop body run over a list of triangles, stopping at the first error.\<close>

fun walkTriangles ::
  "('p, 'v) VectorOps \<Rightarrow> 'p RawMesh \<Rightarrow> nat \<Rightarrow> nat list \<Rightarrow> 'v MeshSection \<Rightarrow> error + 'v MeshSection" where
  "walkTriangles ops mesh Material [] s = Inr s"
| "walkTriangles ops mesh Material (t # ts) s =
     (case triangleStep ops mesh Material (3 * t) s of
        Inl e \<Rightarrow> Inl e
      | Inr s' \<Rightarrow> walkTriangles ops mesh Material ts s')"

text \<open>A well-formed raw mesh: every index names a vertex, and the indices come in triples.\<close>

definition wellFormed :: "'p RawMesh \<Rightarrow> bool" where
  "wellFormed mesh \<longleftrightarrow>
     (\<forall>n \<in> set (indices mesh). n < length (vertices mesh)) \<and> length (indices mesh) mod 3 = 0"

section \<open>Concrete inputs\<close>

text \<open>
  An executor that makes the ground solid up to \<open>z = 2\<close> with the grass line at 2, the
  parameters and the region of the end-to-end scenario, and a mesh of two triangles over
  three vertices with one-dimensional positions.
\<close>

definition exec1 :: executor where
  "exec1 x y z n =
     (case n of TranslateZ a b \<Rightarrow> (if z \<le> 2 then 1 else 0) | Subtract a b \<Rightarrow> 2 | _ \<Rightarrow> 0)"

definition pager1 :: VoxelTerrainPager where
  "pager1 = \<lparr>Seed = 1, NoiseOctaves = 1, NoiseFrequency = 0.1, NoiseScale = 1, NoiseOffset = 0,
              TerrainHeight = 4\<rparr>"

definition region1 :: Region where
  "region1 = \<lparr>LowerX = 0, LowerY = 0, LowerZ = 0, UpperX = 3, UpperY = 3, UpperZ = 3\<rparr>"

definition ops1 :: "(int, int) VectorOps" where
  "ops1 = \<lparr>scaled = (\<lambda>p. p * 100), edge = (\<lambda>p q. p - q), cross = (\<lambda>a b. a * b),
            GetSafeNormal = sgn\<rparr>"

definition mesh1 :: "int RawMesh" where
  "mesh1 = \<lparr>vertices = [\<lparr>position = 1, data = \<lparr>material = 1, density = 255\<rparr>\<rparr>,
                        \<lparr>position = 2, data = \<lparr>material = 2, density = 255\<rparr>\<rparr>,
                        \<lparr>position = 4, data = \<lparr>material = 1, density = 255\<rparr>\<rparr>],
            indices = [0, 1, 2, 2, 0, 1]\<rparr>"

definition emptyMesh :: "'p RawMesh" where
  "emptyMesh = \<lparr>vertices = [], indices = []\<rparr>"

text \<open>The two sections the partition loop makes of that mesh for two materials.\<close>

definition sections1 :: "int MeshSection list" where
  "sections1 =
     [\<lparr>Vertices = [400, 200, 100], Indices = [0, 1, 2], Normals = [1, 1, 1],
       Tangents = [(1, False), (1, False), (1, False)]\<rparr>,
      \<lparr>Vertices = [200, 100, 400], Indices = [0, 1, 2], Normals = [1, 1, 1],
       Tangents = [(- 1, False), (- 1, False), (- 1, False)]\<rparr>]"

section \<open>What pageIn leaves in the chunk\<close>

lemma fold_product:
  "fold (\<lambda>x. fold (F x) ys) xs = fold (\<lambda>(x, y). F x y) (List.product xs ys)"
  by (induction xs) (simp_all add: fold_map comp_def)

lemma fold_write_other:
  "k \<notin> g ` set as \<Longrightarrow> fold (\<lambda>a c. c(g a \<mapsto> h a)) as c k = c k"
  by (induction as arbitrary: c) auto

lemma fold_write_hit:
  "a \<in> set as \<Longrightarrow> inj_on g (set as) \<Longrightarrow> fold (\<lambda>a c. c(g a \<mapsto> h a)) as c (g a) = Some (h a)"
proof (induction as arbitrary: c rule: rev_induct)
  case Nil
  then show ?case by simp
next
  case (snoc b bs)
  show ?case
  proof (cases "g b = g a")
    case True
    with snoc.prems have "b = a" by (auto dest: inj_onD)
    then show ?thesis by simp
  next
    case False
    with snoc.prems have "a \<in> set bs" "inj_on g (set bs)" by (auto simp: inj_on_def)
    with snoc.IH False show ?thesis by simp
  qed
qed

lemma inj_localOf: "inj_on (localOf region) A"
  by (auto simp: inj_on_def localOf_def)

lemma pageIn_flat:
  "pageIn exec pager region chunk =
     fold (\<lambda>a c. c(localOf region a \<mapsto> (\<lambda>(x, y, z). terrainVoxel exec (buildKernel pager) x y z) a))
       (List.product [LowerX region..UpperX region]
          (List.product [LowerY region..UpperY region sdiv 2] [LowerZ region..UpperZ region]))
       chunk"
  by (simp add: pageIn_def Let_def fold_product setVoxel_def localOf_def case_prod_unfold)

lemma set_coords:
  "set (List.product [LowerX region..UpperX region]
          (List.product [LowerY region..UpperY region sdiv 2] [LowerZ region..UpperZ region]))
     = visited region"
  by (simp add: visited_def)

lemma pageIn_visited:
  assumes "(x, y, z) \<in> visited region"
  shows "pageIn exec pager region chunk (x - LowerX region, y - LowerY region, z - LowerZ region)
           = Some (terrainVoxel exec (buildKernel pager) x y z)"
proof -
  have "(x, y, z) \<in> set (List.product [LowerX region..UpperX region]
          (List.product [LowerY region..UpperY region sdiv 2] [LowerZ region..UpperZ region]))"
    using assms by (simp only: set_coords)
  from fold_write_hit [OF this inj_localOf, where h = "\<lambda>(x, y, z). terrainVoxel exec (buildKernel pager) x y z" and c = chunk]
  show ?thesis by (simp add: pageIn_flat localOf_def)
qed

lemma pageIn_unvisited:
  assumes "(x, y, z) \<notin> visited region"
  shows "pageIn exec pager region chunk (x - LowerX region, y - LowerY region, z - LowerZ region)
           = chunk (x - LowerX region, y - LowerY region, z - LowerZ region)"
proof -
  have "localOf region (x, y, z) \<notin> localOf region ` visited region"
    using assms by (auto simp: localOf_def)
  then have "localOf region (x, y, z) \<notin> localOf region ` set (List.product [LowerX region..UpperX region]
          (List.product [LowerY region..UpperY region sdiv 2] [LowerZ region..UpperZ region]))"
    unfolding set_coords .
  from fold_write_other [OF this]
  show ?thesis by (simp add: pageIn_flat localOf_def)
qed

lemma pageIn_cell:
  "pageIn exec pager region chunk (i, j, l) =
     (if (i + LowerX region, j + LowerY region, l + LowerZ region) \<in> visited region
      then Some (terrainVoxel exec (buildKernel pager) (i + LowerX region) (j + LowerY region) (l + LowerZ region))
      else chunk (i, j, l))"
  using pageIn_visited [of "i + LowerX region" "j + LowerY region" "l + LowerZ region" region exec pager chunk]
    pageIn_unvisited [of "i + LowerX region" "j + LowerY region" "l + LowerZ region" region exec pager chunk]
  by simp

text \<open>
  The bound of the y loop is a quotient that C++ rounds towards zero. For a region whose
  upper y is negative the loop therefore runs past the region: from \<open>y = - 4\<close> to
  \<open>- 1 / 2 = 0\<close> here, writing the chunk-local cell with \<open>y = 4\<close>.
\<close>

lemma pageIn_overshoot:
  "pageIn exec pager \<lparr>LowerX = 0, LowerY = - 4, LowerZ = 0, UpperX = 0, UpperY = - 1, UpperZ = 0\<rparr>
     Map.empty (0, 4, 0) \<noteq> None"
  using pageIn_visited [of 0 0 0 "\<lparr>LowerX = 0, LowerY = - 4, LowerZ = 0, UpperX = 0, UpperY = - 1, UpperZ = 0\<rparr>" exec pager Map.empty]
  by (simp add: visited_def signed_divide_int_def)

text \<open>
  C1. The claim: \<open>pageIn\<close> writes every coordinate of the inclusive box of the region. The
  y loop of the source stops at \<open>region.getUpperY() / 2\<close>: for the region from \<open>(0, 0, 0)\<close>
  to \<open>(3, 3, 3)\<close> and a chunk with no cell written, the cell of the coordinate
  \<open>(0, 2, 0)\<close>, which lies in the region, is still unwritten after \<open>pageIn\<close>.
\<close>

theorem pageIn_leaves_hole:
  "pageIn exec pager region1 Map.empty (0, 2, 0) = None"
  using pageIn_unvisited [of 0 2 0 region1 exec pager Map.empty]
  by (simp add: visited_def region1_def signed_divide_int_def)

text \<open>
  C2. At every coordinate the loops of \<open>pageIn\<close> visit, the chunk holds a voxel whose
  material follows the precedence: Air (0) when the solidity field is not above 0.5;
  otherwise Grass (3) when \<open>z\<close> is at or above the floor of the grass line; else Dirt (2)
  when \<open>z \<le> grassZ - 1\<close> and \<open>z > grassZ - 1 - 3\<close>; else Ore (4) when the ore field is
  above 1.95; else Stone (1).
\<close>

theorem pageIn_material_precedence:
  assumes "(x, y, z) \<in> visited region"
  shows "\<exists>v. pageIn exec pager region chunk (x - LowerX region, y - LowerY region, z - LowerZ region) = Some v
           \<and> material v =
               (let k = buildKernel pager;
                    field = exec (real_of_int x) (real_of_int y) (real_of_int z);
                    grassZ = \<lfloor>field (GrassZ k)\<rfloor>
                in if field (PerturbGradient k) > 0.5 then
                     (if z \<ge> grassZ then 3
                      else if z \<le> grassZ - 1 \<and> z > grassZ - 1 - 3 then 2
                      else if field (OreFractal k) > 1.95 then 4
                      else 1)
                   else 0)"
  unfolding pageIn_visited [OF assms(1)]
  by (simp add: terrainVoxel_def Let_def setMaterial_def setDensity_def FloorToInt_def)

theorem pageIn_material_precedence_witness:
  "(0, 1, 2) \<in> visited region1 \<and>
     (\<exists>v. pageIn exec1 pager1 region1 Map.empty (0, 1, 2) = Some v \<and> material v = 3)"
proof -
  have h: "(0, 1, 2) \<in> visited region1"
    by (simp add: visited_def region1_def signed_divide_int_def)
  have "LowerX region1 = 0" "LowerY region1 = 0" "LowerZ region1 = 0"
    by (simp_all add: region1_def)
  with pageIn_material_precedence [OF h, of exec1 pager1 Map.empty]
  have "\<exists>v. pageIn exec1 pager1 region1 Map.empty (0, 1, 2) = Some v \<and> material v = 3"
    by (simp add: exec1_def buildKernel_def Let_def)
  with h show ?thesis by simp
qed

text \<open>
  C6. At every coordinate the loops of \<open>pageIn\<close> visit, the voxel in the chunk has density
  0 exactly when its material is Air (0); the density is 0 or 255; a solid voxel has
  density 255 and a material other than Air, a non-solid one density 0 and material Air.
\<close>

theorem pageIn_density_binary:
  assumes "(x, y, z) \<in> visited region"
  shows "\<exists>v. pageIn exec pager region chunk (x - LowerX region, y - LowerY region, z - LowerZ region) = Some v
           \<and> (density v = 0 \<longleftrightarrow> material v = 0)
           \<and> (density v = 0 \<or> density v = 255)
           \<and> (if exec (real_of_int x) (real_of_int y) (real_of_int z) (PerturbGradient (buildKernel pager)) > 0.5
               then density v = 255 \<and> material v \<noteq> 0
               else density v = 0 \<and> material v = 0)"
  unfolding pageIn_visited [OF assms(1)]
  by (simp add: terrainVoxel_def Let_def setMaterial_def setDensity_def)

theorem pageIn_density_binary_witness:
  "(0, 1, 2) \<in> visited region1 \<and>
     (\<exists>v. pageIn exec1 pager1 region1 Map.empty (0, 1, 2) = Some v \<and> density v = 255 \<and> material v \<noteq> 0)"
proof -
  have h: "(0, 1, 2) \<in> visited region1"
    by (simp add: visited_def region1_def signed_divide_int_def)
  have "LowerX region1 = 0" "LowerY region1 = 0" "LowerZ region1 = 0"
    by (simp_all add: region1_def)
  with pageIn_density_binary [OF h, of exec1 pager1 Map.empty]
  have "\<exists>v. pageIn exec1 pager1 region1 Map.empty (0, 1, 2) = Some v \<and> density v = 255 \<and> material v \<noteq> 0"
    by (auto simp add: exec1_def buildKernel_def Let_def)
  with h show ?thesis by simp
qed

text \<open>
  C5. Running \<open>pageIn\<close> again on the chunk it has just filled, with the same executor,
  pager and region, changes nothing: the chunk after the second run is the chunk after
  the first. And whatever two chunks held before, after \<open>pageIn\<close> with the same
  executor, pager and region they hold the same voxel at every coordinate the loops
  visit.
\<close>

theorem pageIn_idempotent:
  "pageIn exec pager region (pageIn exec pager region chunk) = pageIn exec pager region chunk
   \<and> (\<forall>c \<in> visited region.
         pageIn exec pager region chunk (localOf region c)
           = pageIn exec pager region chunk' (localOf region c))"
proof
  show "pageIn exec pager region (pageIn exec pager region chunk) = pageIn exec pager region chunk"
  proof
    fix c :: "int \<times> int \<times> int"
    obtain i j l where c: "c = (i, j, l)" by (cases c) auto
    show "pageIn exec pager region (pageIn exec pager region chunk) c = pageIn exec pager region chunk c"
      unfolding c by (simp add: pageIn_cell)
  qed
  show "\<forall>c \<in> visited region.
         pageIn exec pager region chunk (localOf region c)
           = pageIn exec pager region chunk' (localOf region c)"
  proof
    fix c assume v: "c \<in> visited region"
    obtain x y z where c: "c = (x, y, z)" by (cases c) auto
    from v show "pageIn exec pager region chunk (localOf region c)
           = pageIn exec pager region chunk' (localOf region c)"
      unfolding c by (simp add: localOf_def pageIn_visited)
  qed
qed

theorem pageIn_idempotent_witness:
  "(0, 1, 2) \<in> visited region1 \<and>
     pageIn exec1 pager1 region1 Map.empty (localOf region1 (0, 1, 2))
       = pageIn exec1 pager1 region1 (pageIn exec1 pager1 region1 Map.empty) (localOf region1 (0, 1, 2))"
proof -
  have h: "(0, 1, 2) \<in> visited region1"
    by (simp add: visited_def region1_def signed_divide_int_def)
  from pageIn_idempotent [of exec1 pager1 region1 Map.empty "pageIn exec1 pager1 region1 Map.empty"] h
  show ?thesis by blast
qed

text \<open>
  C9. \<open>pageOut\<close> does nothing: the pager and the chunk after the call are the pager and the
  chunk before it.
\<close>

theorem pageOut_no_action:
  "pageOut pager region chunk = (pager, chunk)"
  by (simp add: pageOut_def)

section \<open>The partition loop\<close>

lemma upt3: "[0..<3] = [0, 1, 2]"
  by (simp add: upt_conv_Cons)

lemma addTangents_eq:
  "addTangents tx tz s = s\<lparr>Tangents := Tangents s @ replicate 3 (tx, False), Normals := Normals s @ replicate 3 tz\<rparr>"
  by (simp add: addTangents_def upt3 numeral_3_eq_3)

lemma triangleStep_result:
  assumes "triangleStep ops mesh Material (3 * t) s = Inr s'"
    and "3 * t + 2 < 2 ^ 32"
  shows "3 * t + 2 < length (indices mesh)"
    and "s' = (if referenceMaterial mesh t = Material + 1 then emitTriangle ops mesh t s else s)"
proof -
  have m: "Suc (Suc (3 * t)) mod 4294967296 = Suc (Suc (3 * t))"
    "Suc (3 * t) mod 4294967296 = Suc (3 * t)"
    using assms(2) by simp_all
  show "3 * t + 2 < length (indices mesh)"
    using assms(1) by (simp add: triangleStep_def getIndex_def m split: if_splits)
  show "s' = (if referenceMaterial mesh t = Material + 1 then emitTriangle ops mesh t s else s)"
    using assms(1)
    by (auto simp add: triangleStep_def getIndex_def getVertex_def m referenceMaterial_def corner_def
        emitTriangle_def flatNormal_def flatTangent_def addVertex_def addTangents_eq Let_def
        split: if_splits sum.splits)
qed

lemma loopBound_eq:
  assumes "2 \<le> length (indices mesh)" "length (indices mesh) < 2 ^ w"
  shows "loopBound w mesh = length (indices mesh) - 2"
proof -
  have "length (indices mesh) + 2 ^ w - 2 = (length (indices mesh) - 2) + 2 ^ w"
    using assms by simp
  then have "loopBound w mesh = (length (indices mesh) - 2) mod 2 ^ w"
    unfolding loopBound_def getNoOfIndices_def by simp
  then show ?thesis
    using assms by simp
qed

lemma loopBound_small:
  assumes "length (indices mesh) < 2" "32 \<le> w"
  shows "0 < loopBound w mesh"
proof -
  have "(2::nat) ^ 32 \<le> 2 ^ w" using assms(2) by (rule power_increasing) simp
  then have w: "(4::nat) \<le> 2 ^ w" by simp
  then have "length (indices mesh) + 2 ^ w - 2 < 2 ^ w" "0 < length (indices mesh) + 2 ^ w - 2"
    using assms(1) by linarith+
  then show ?thesis
    by (simp add: loopBound_def getNoOfIndices_def)
qed


lemma triangleLoop_walk:
  assumes "2 \<le> length (indices mesh)" "length (indices mesh) < 2 ^ 32" "32 \<le> w"
  shows "t \<le> triangleCount mesh \<Longrightarrow>
     triangleLoop ops w mesh Material (3 * t) s
       = Some (walkTriangles ops mesh Material [t..<triangleCount mesh] s)"
proof (induction "triangleCount mesh - t" arbitrary: t s)
  case 0
  then have t: "t = triangleCount mesh" by simp
  have "(2::nat) ^ 32 \<le> 2 ^ w" using assms(3) by (rule power_increasing) simp
  then have b: "loopBound w mesh = length (indices mesh) - 2"
    using assms by (intro loopBound_eq) simp_all
  have "\<not> 3 * t < loopBound w mesh"
    unfolding b t triangleCount_def using assms(1) by presburger
  then show ?case
    by (subst triangleLoop.simps) (simp add: t)
next
  case (Suc d)
  then have t: "t < triangleCount mesh" by simp
  have "(2::nat) ^ 32 \<le> 2 ^ w" using assms(3) by (rule power_increasing) simp
  then have b: "loopBound w mesh = length (indices mesh) - 2"
    using assms by (intro loopBound_eq) simp_all
  have lt: "3 * t < loopBound w mesh"
    unfolding b using t unfolding triangleCount_def by presburger
  have "3 * t + 3 \<le> length (indices mesh)"
    using t unfolding triangleCount_def by presburger
  then have nx: "(3 * t + 3) mod 2 ^ 32 = 3 * Suc t"
    using assms(2) by simp
  have ih: "triangleLoop ops w mesh Material (3 * Suc t) s1
       = Some (walkTriangles ops mesh Material [Suc t..<triangleCount mesh] s1)" for s1
    using Suc.hyps(2) t by (intro Suc.hyps(1)) simp_all
  have "triangleLoop ops w mesh Material (3 * t) s =
      (case triangleStep ops mesh Material (3 * t) s of
         Inl e \<Rightarrow> Some (Inl e)
       | Inr s' \<Rightarrow> triangleLoop ops w mesh Material (3 * Suc t) s')"
    by (subst triangleLoop.simps) (simp only: lt nx if_True)
  also have "\<dots> = Some (walkTriangles ops mesh Material (t # [Suc t..<triangleCount mesh]) s)"
    using ih by (simp split: sum.splits)
  finally show ?case
    using t by (simp add: upt_conv_Cons)
qed

lemma triangleLoop_short:
  assumes "length (indices mesh) < 2" "32 \<le> w"
  shows "triangleLoop ops w mesh Material 0 s = Some (Inl (IndexOutOfRange 2))"
proof -
  have "triangleStep ops mesh Material 0 s = Inl (IndexOutOfRange 2)"
    using assms(1) by (simp add: triangleStep_def getIndex_def)
  then show ?thesis
    using loopBound_small [OF assms] by (subst triangleLoop.simps) simp
qed

lemma walkTriangles_result:
  "walkTriangles ops mesh Material ts s = Inr s' \<Longrightarrow> \<forall>t \<in> set ts. 3 * t + 2 < 2 ^ 32 \<Longrightarrow>
     s' = fold (emitTriangle ops mesh) (filter (\<lambda>t. referenceMaterial mesh t = Material + 1) ts) s"
proof (induction ts arbitrary: s)
  case Nil
  then show ?case by simp
next
  case (Cons t ts)
  from Cons.prems(1) obtain s1 where
    s1: "triangleStep ops mesh Material (3 * t) s = Inr s1"
    and rest: "walkTriangles ops mesh Material ts s1 = Inr s'"
    by (auto split: sum.splits)
  from Cons.prems(2) have "3 * t + 2 < 2 ^ 32" by simp
  from triangleStep_result(2) [OF s1 this]
  have "s1 = (if referenceMaterial mesh t = Material + 1 then emitTriangle ops mesh t s else s)" .
  moreover from Cons.IH [OF rest] Cons.prems(2)
  have "s' = fold (emitTriangle ops mesh) (filter (\<lambda>t. referenceMaterial mesh t = Material + 1) ts) s1"
    by simp
  ultimately show ?case by simp
qed

lemma triangleStep_wellFormed:
  assumes "\<forall>n \<in> set (indices mesh). n < length (vertices mesh)"
    and "3 * t + 2 < length (indices mesh)" "length (indices mesh) < 2 ^ 32"
  shows "\<exists>s'. triangleStep ops mesh Material (3 * t) s = Inr s'"
proof -
  have m: "Suc (Suc (3 * t)) mod 4294967296 = Suc (Suc (3 * t))"
    "Suc (3 * t) mod 4294967296 = Suc (3 * t)"
    using assms(2,3) by simp_all
  have "indices mesh ! (3 * t) < length (vertices mesh)"
    "indices mesh ! Suc (3 * t) < length (vertices mesh)"
    "indices mesh ! Suc (Suc (3 * t)) < length (vertices mesh)"
    using assms(1,2) by simp_all
  then show ?thesis
    using assms(2)
    by (simp add: triangleStep_def getIndex_def getVertex_def m Let_def)
qed

lemma walkTriangles_wellFormed:
  assumes "\<forall>n \<in> set (indices mesh). n < length (vertices mesh)" "length (indices mesh) < 2 ^ 32"
  shows "\<forall>t \<in> set ts. 3 * t + 2 < length (indices mesh) \<Longrightarrow>
     \<exists>s'. walkTriangles ops mesh Material ts s = Inr s'"
proof (induction ts arbitrary: s)
  case Nil
  then show ?case by simp
next
  case (Cons t ts)
  then have "3 * t + 2 < length (indices mesh)" by simp
  from triangleStep_wellFormed [OF assms(1) this assms(2)]
  obtain s1 where "triangleStep ops mesh Material (3 * t) s = Inr s1" by blast
  with Cons.IH [of s1] Cons.prems show ?case by simp
qed

lemma triangleLoop_success:
  assumes "triangleLoop ops w mesh Material 0 emptySection = Some (Inr s)"
    and "length (indices mesh) < 2 ^ 32" "32 \<le> w"
  shows "2 \<le> length (indices mesh)"
    and "s = fold (emitTriangle ops mesh) (included mesh (Material + 1)) emptySection"
proof -
  show n2: "2 \<le> length (indices mesh)"
  proof (rule ccontr)
    assume "\<not> 2 \<le> length (indices mesh)"
    then have "length (indices mesh) < 2" by simp
    from triangleLoop_short [OF this assms(3), of ops Material emptySection] assms(1) show False by simp
  qed
  from triangleLoop_walk [OF n2 assms(2,3), of 0 ops Material emptySection] assms(1)
  have w: "walkTriangles ops mesh Material [0..<triangleCount mesh] emptySection = Inr s"
    by simp
  have "\<forall>t \<in> set [0..<triangleCount mesh]. 3 * t + 2 < 2 ^ 32"
  proof
    fix t assume "t \<in> set [0..<triangleCount mesh]"
    then have "t < length (indices mesh) div 3"
      by (simp add: triangleCount_def)
    then have "3 * t + 2 < length (indices mesh)"
      by presburger
    with assms(2) show "3 * t + 2 < 2 ^ 32" by simp
  qed
  from walkTriangles_result [OF w this]
  show "s = fold (emitTriangle ops mesh) (included mesh (Material + 1)) emptySection"
    by (simp add: included_def)
qed

lemma createSections_result:
  assumes "length (indices mesh) < 2 ^ 32" "32 \<le> w"
  shows "createSections ops w mesh ms = Some (Inr secs) \<Longrightarrow>
     secs = map (\<lambda>Material. fold (emitTriangle ops mesh) (included mesh (Material + 1)) emptySection) ms"
proof (induction ms arbitrary: secs)
  case Nil
  then show ?case by simp
next
  case (Cons Material rest)
  from Cons.prems obtain s ss where
    s: "triangleLoop ops w mesh Material 0 emptySection = Some (Inr s)"
    and ss: "createSections ops w mesh rest = Some (Inr ss)"
    and secs: "secs = s # ss"
    by (auto split: option.splits sum.splits)
  from triangleLoop_success(2) [OF s assms] Cons.IH [OF ss] secs
  show ?case by simp
qed

lemma partitionMesh_result:
  assumes "partitionMesh ops w M mesh = Some (Inr secs)"
    and "length (indices mesh) < 2 ^ 32" "32 \<le> w"
  shows "length secs = M"
    and "Material < M \<Longrightarrow>
      secs ! Material = fold (emitTriangle ops mesh) (included mesh (Material + 1)) emptySection"
  using createSections_result [OF assms(2,3), of ops "[0..<M]" secs] assms(1)
  by (simp_all add: partitionMesh_def)

lemma fold_emit_Vertices:
  "Vertices (fold (emitTriangle ops mesh) ts s) =
     Vertices s @ concat (map (\<lambda>t. [scaled ops (position (corner mesh t 2)),
                                   scaled ops (position (corner mesh t 1)),
                                   scaled ops (position (corner mesh t 0))]) ts)"
  by (induction ts arbitrary: s) (simp_all add: emitTriangle_def)

lemma fold_emit_Normals:
  "Normals (fold (emitTriangle ops mesh) ts s) =
     Normals s @ concat (map (\<lambda>t. replicate 3 (flatNormal ops mesh t)) ts)"
  by (induction ts arbitrary: s) (simp_all add: emitTriangle_def)

lemma fold_emit_Tangents:
  "Tangents (fold (emitTriangle ops mesh) ts s) =
     Tangents s @ concat (map (\<lambda>t. replicate 3 (flatTangent ops mesh t, False)) ts)"
  by (induction ts arbitrary: s) (simp_all add: emitTriangle_def)

lemma fold_emit_length:
  "length (Vertices (fold (emitTriangle ops mesh) ts s)) = length (Vertices s) + 3 * length ts"
  by (induction ts arbitrary: s) (simp_all add: emitTriangle_def)

lemma upt_three: "[n..<n + 3] = [n, n + 1, n + 2]"
  by (simp add: upt_conv_Cons)

lemma upt_block: "[n..<n + 3 * Suc l] = [n, n + 1, n + 2] @ [n + 3..<n + 3 + 3 * l]"
proof -
  have "[n..<(n + 3) + 3 * l] = [n..<n + 3] @ [n + 3..<(n + 3) + 3 * l]"
    by (rule upt_add_eq_append) simp
  moreover have "n + 3 * Suc l = (n + 3) + 3 * l" by simp
  ultimately show ?thesis by (simp only: upt_three)
qed

lemma fold_emit_Indices:
  "Indices (fold (emitTriangle ops mesh) ts s) =
     Indices s @ [length (Vertices s)..<length (Vertices s) + 3 * length ts]"
proof (induction ts arbitrary: s)
  case Nil
  then show ?case by simp
next
  case (Cons t ts)
  have "Indices (fold (emitTriangle ops mesh) (t # ts) s) =
      Indices (emitTriangle ops mesh t s) @
        [length (Vertices (emitTriangle ops mesh t s))..<
           length (Vertices (emitTriangle ops mesh t s)) + 3 * length ts]"
    by (simp add: Cons.IH)
  also have "\<dots> = Indices s @ [length (Vertices s), length (Vertices s) + 1, length (Vertices s) + 2]
      @ [length (Vertices s) + 3..<length (Vertices s) + 3 + 3 * length ts]"
  proof -
    have "Indices (emitTriangle ops mesh t s) =
        Indices s @ [length (Vertices s), length (Vertices s) + 1, length (Vertices s) + 2]"
      by (simp add: emitTriangle_def)
    moreover have "length (Vertices (emitTriangle ops mesh t s)) = length (Vertices s) + 3"
      by (simp add: emitTriangle_def)
    ultimately show ?thesis by (simp only: append_assoc)
  qed
  also have "\<dots> = Indices s @ [length (Vertices s)..<length (Vertices s) + 3 * Suc (length ts)]"
    by (simp only: upt_block)
  finally show ?case by simp
qed

lemma nth_concat_blocks:
  assumes "\<forall>t. length (f t) = 3" "j < length ts" "k < 3"
  shows "concat (map f ts) ! (3 * j + k) = f (ts ! j) ! k"
  using assms(2)
proof (induction ts arbitrary: j)
  case Nil
  then show ?case by simp
next
  case (Cons t ts)
  show ?case
  proof (cases j)
    case 0
    then show ?thesis using assms(1,3) by (simp add: nth_append)
  next
    case (Suc i)
    with Cons.prems have "i < length ts" by simp
    from Cons.IH [OF this] Suc assms(1) show ?thesis
      by (simp add: nth_append)
  qed
qed

lemma sum_list_filter_classes:
  assumes "\<forall>x \<in> set xs. 1 \<le> f x \<and> f x \<le> M"
  shows "(\<Sum>k\<leftarrow>[0..<M]. length (filter (\<lambda>x. f x = Suc k) xs)) = length xs"
  using assms
proof (induction xs)
  case Nil
  then show ?case by simp
next
  case (Cons x xs)
  then have fx: "1 \<le> f x" "f x \<le> M" by simp_all
  have "(\<Sum>k\<leftarrow>[0..<M]. if f x = Suc k then 1 else 0) = (\<Sum>k \<in> {0..<M}. if k = f x - 1 then 1 else (0::nat))"
    unfolding interv_sum_list_conv_sum_set_nat using fx
    by (intro sum.cong) auto
  also have "\<dots> = 1"
    using fx by simp
  finally have one: "(\<Sum>k\<leftarrow>[0..<M]. if f x = Suc k then 1 else 0) = (1::nat)" .
  have "(\<Sum>k\<leftarrow>[0..<M]. length (filter (\<lambda>x. f x = Suc k) (x # xs))) =
      (\<Sum>k\<leftarrow>[0..<M]. (if f x = Suc k then 1 else 0) + length (filter (\<lambda>x. f x = Suc k) xs))"
    by (intro arg_cong [where f = sum_list] map_cong) simp_all
  also have "\<dots> = 1 + length xs"
    using Cons.IH Cons.prems by (simp add: sum_list_addf one)
  finally show ?case by simp
qed

lemma replicate3: "replicate 3 x = [x, x, x]"
  by (simp add: numeral_3_eq_3)

lemma mesh1_partition: "partitionMesh ops1 64 2 mesh1 = Some (Inr sections1)"
  by (simp add: partitionMesh_def upt_conv_Cons triangleLoop.simps loopBound_def getNoOfIndices_def
      triangleStep_def getIndex_def getVertex_def mesh1_def ops1_def getMaterial_def addVertex_def
      addTangents_eq emptySection_def sections1_def replicate3 Let_def)

lemma mesh1_wellFormed: "wellFormed mesh1"
  by (simp add: wellFormed_def mesh1_def)

lemma emptyMesh_wellFormed: "wellFormed emptyMesh"
  by (simp add: wellFormed_def emptyMesh_def)

text \<open>
  On a well-formed mesh that is not empty, with fewer than \<open>2 ^ 32\<close> indices, the
  partition loop ends for every material without reading out of range.
\<close>

lemma partitionMesh_returns:
  assumes "wellFormed mesh" "indices mesh \<noteq> []" "length (indices mesh) < 2 ^ 32" "32 \<le> w"
  shows "\<exists>secs. partitionMesh ops w M mesh = Some (Inr secs)"
proof -
  from assms(1) have wf: "\<forall>n \<in> set (indices mesh). n < length (vertices mesh)"
    and m3: "length (indices mesh) mod 3 = 0"
    by (simp_all add: wellFormed_def)
  from assms(2) have "0 < length (indices mesh)" by simp
  with m3 have n2: "2 \<le> length (indices mesh)" by presburger
  have "\<forall>t \<in> set [0..<triangleCount mesh]. 3 * t + 2 < length (indices mesh)"
  proof
    fix t assume "t \<in> set [0..<triangleCount mesh]"
    then have "t < length (indices mesh) div 3"
      by (simp add: triangleCount_def)
    then show "3 * t + 2 < length (indices mesh)"
      by presburger
  qed
  from walkTriangles_wellFormed [OF wf assms(3) this]
  have "\<exists>s'. walkTriangles ops mesh Material [0..<triangleCount mesh] emptySection = Inr s'" for Material
    by blast
  then have loop: "\<exists>s'. triangleLoop ops w mesh Material 0 emptySection = Some (Inr s')" for Material
    using triangleLoop_walk [OF n2 assms(3,4), of 0 ops Material emptySection] by simp
  have "\<exists>secs. createSections ops w mesh ms = Some (Inr secs)" for ms
  proof (induction ms)
    case Nil
    then show ?case by simp
  next
    case (Cons Material rest)
    from loop [of Material] obtain s' where "triangleLoop ops w mesh Material 0 emptySection = Some (Inr s')"
      by blast
    with Cons.IH show ?case by auto
  qed
  then show ?thesis by (simp add: partitionMesh_def)
qed

lemma referenceMaterial_in_range:
  assumes "wellFormed mesh"
    and "\<forall>v \<in> set (vertices mesh). 1 \<le> unat (getMaterial (data v)) \<and> unat (getMaterial (data v)) \<le> M"
    and "t < triangleCount mesh"
  shows "1 \<le> referenceMaterial mesh t \<and> referenceMaterial mesh t \<le> M"
proof -
  from assms(3) have "t < length (indices mesh) div 3"
    by (simp add: triangleCount_def)
  then have "3 * t + 2 < length (indices mesh)" by presburger
  then have "indices mesh ! (3 * t + 2) \<in> set (indices mesh)" by (rule nth_mem)
  with assms(1) have "indices mesh ! (3 * t + 2) < length (vertices mesh)"
    by (simp add: wellFormed_def)
  then have "corner mesh t 2 \<in> set (vertices mesh)"
    unfolding corner_def by (rule nth_mem)
  with assms(2) show ?thesis
    by (simp add: referenceMaterial_def)
qed

lemma section_lengths:
  assumes "s = fold (emitTriangle ops mesh) ts emptySection"
  shows "length (Vertices s) = 3 * length ts" "Indices s = [0..<3 * length ts]"
    "length (Normals s) = 3 * length ts" "length (Tangents s) = 3 * length ts"
  unfolding assms
  by (simp_all add: fold_emit_length fold_emit_Indices fold_emit_Normals fold_emit_Tangents
      emptySection_def length_concat comp_def sum_list_triv)

lemma included_sorted: "sorted_wrt (<) (included mesh m)"
  unfolding included_def by (rule sorted_wrt_filter) (simp add: sorted_wrt_upt)

lemma included_set:
  "t \<in> set (included mesh m) \<longleftrightarrow> t < triangleCount mesh \<and> referenceMaterial mesh t = m"
  by (auto simp add: included_def)

lemma mesh1_included: "included mesh1 (Suc 0) = [0]" "included mesh1 (Suc (Suc 0)) = [1]"
  by (simp_all add: included_def triangleCount_def referenceMaterial_def corner_def mesh1_def
      getMaterial_def upt_conv_Cons)

section \<open>The claims about the partition loop\<close>

text \<open>
  C3. For a well-formed raw mesh with fewer than \<open>2 ^ 32\<close> indices whose vertex material
  tags all lie in \<open>[1, M]\<close>: if the mesh is not empty the partition loop returns its
  sections, and whenever it returns them there are \<open>M\<close> sections, their triangle counts
  add up to the number of triangles of the raw mesh, every section has three vertices per
  triangle, and every index of a section is a position in that section's own vertex array.
\<close>

theorem partition_counts:
  assumes "length (indices mesh) < 2 ^ 32" and "32 \<le> w"
    and "wellFormed mesh"
    and "\<forall>v \<in> set (vertices mesh). 1 \<le> unat (getMaterial (data v)) \<and> unat (getMaterial (data v)) \<le> M"
  shows "(indices mesh \<noteq> [] \<longrightarrow> (\<exists>secs. partitionMesh ops w M mesh = Some (Inr secs)))
    \<and> (\<forall>secs. partitionMesh ops w M mesh = Some (Inr secs) \<longrightarrow>
          length secs = M
          \<and> (\<Sum>s\<leftarrow>secs. length (Indices s) div 3) = triangleCount mesh
          \<and> (\<forall>s \<in> set secs. length (Vertices s) = 3 * (length (Indices s) div 3)
                \<and> (\<forall>n \<in> set (Indices s). n < length (Vertices s))))"
proof (intro conjI allI impI ballI)
  assume "indices mesh \<noteq> []"
  from partitionMesh_returns [OF assms(3) this assms(1,2)]
  show "\<exists>secs. partitionMesh ops w M mesh = Some (Inr secs)" .
next
  fix secs assume ok: "partitionMesh ops w M mesh = Some (Inr secs)"
  from createSections_result [OF assms(1,2), of ops "[0..<M]" secs] ok
  have secs: "secs = map (\<lambda>Material. fold (emitTriangle ops mesh) (included mesh (Material + 1)) emptySection) [0..<M]"
    by (simp add: partitionMesh_def)
  show "length secs = M" by (simp add: secs)
  have "(\<Sum>s\<leftarrow>secs. length (Indices s) div 3) = (\<Sum>k\<leftarrow>[0..<M]. length (included mesh (Suc k)))"
    unfolding secs
    by (simp add: comp_def section_lengths(2) [OF refl])
  also have "\<dots> = length [0..<triangleCount mesh]"
    unfolding included_def
    using referenceMaterial_in_range [OF assms(3,4)]
    by (intro sum_list_filter_classes) simp
  finally show "(\<Sum>s\<leftarrow>secs. length (Indices s) div 3) = triangleCount mesh" by simp
  fix s assume "s \<in> set secs"
  with secs obtain Material where
    s: "s = fold (emitTriangle ops mesh) (included mesh (Material + 1)) emptySection" by auto
  from section_lengths(1,2) [OF s]
  show "length (Vertices s) = 3 * (length (Indices s) div 3)" by simp
  fix n assume "n \<in> set (Indices s)"
  with section_lengths(1,2) [OF s]
  show "n < length (Vertices s)" by simp
qed

theorem partition_counts_witness:
  "wellFormed mesh1 \<and> indices mesh1 \<noteq> [] \<and> partitionMesh ops1 64 2 mesh1 = Some (Inr sections1)
     \<and> length sections1 = 2 \<and> (\<Sum>s\<leftarrow>sections1. length (Indices s) div 3) = triangleCount mesh1"
proof -
  have h1: "length (indices mesh1) < 2 ^ 32" by (simp add: mesh1_def)
  have h2: "(32::nat) \<le> 64" by simp
  have h3: "wellFormed mesh1" by (rule mesh1_wellFormed)
  have h4: "\<forall>v \<in> set (vertices mesh1). 1 \<le> unat (getMaterial (data v)) \<and> unat (getMaterial (data v)) \<le> 2"
    by (simp add: mesh1_def getMaterial_def)
  have h5: "indices mesh1 \<noteq> []" by (simp add: mesh1_def)
  have h6: "partitionMesh ops1 64 2 mesh1 = Some (Inr sections1)" by (rule mesh1_partition)
  from partition_counts [OF h1 h2 h3 h4, where ops = ops1] h6
  have "length sections1 = 2 \<and> (\<Sum>s\<leftarrow>sections1. length (Indices s) div 3) = triangleCount mesh1"
    by blast
  with h3 h5 h6 show ?thesis by blast
qed

text \<open>
  C4. The partition loop returns its sections on every well-formed mesh that is not empty,
  and whenever it returns them, for the \<open>j\<close>-th triangle taken into the section of a
  material the section holds at the positions \<open>3 j\<close>, \<open>3 j + 1\<close>, \<open>3 j + 2\<close> the scaled
  third, second and first vertex of the raw triple, in that order; at all three positions
  the tangent is the normalised edge from the first to the second vertex, and the normal
  is the normalised cross product of that edge with the edge from the first to the third
  vertex.
\<close>

theorem triangle_emission:
  assumes "length (indices mesh) < 2 ^ 32" and "32 \<le> w"
    and "Material < M" and "j < length (included mesh (Material + 1))"
  shows "(wellFormed mesh \<and> indices mesh \<noteq> [] \<longrightarrow> (\<exists>secs. partitionMesh ops w M mesh = Some (Inr secs)))
    \<and> (\<forall>secs. partitionMesh ops w M mesh = Some (Inr secs) \<longrightarrow>
         (let s = secs ! Material;
              t = included mesh (Material + 1) ! j;
              p0 = position (corner mesh t 0);
              p1 = position (corner mesh t 1);
              p2 = position (corner mesh t 2)
          in 3 * j + 2 < length (Vertices s)
             \<and> length (Normals s) = length (Vertices s) \<and> length (Tangents s) = length (Vertices s)
             \<and> Vertices s ! (3 * j) = scaled ops p2
             \<and> Vertices s ! (3 * j + 1) = scaled ops p1
             \<and> Vertices s ! (3 * j + 2) = scaled ops p0
             \<and> (\<forall>k < 3. Tangents s ! (3 * j + k) = (GetSafeNormal ops (edge ops p1 p0), False)
                   \<and> Normals s ! (3 * j + k) =
                       GetSafeNormal ops (cross ops (edge ops p1 p0) (edge ops p2 p0)))))"
proof (intro conjI allI impI)
  assume "wellFormed mesh \<and> indices mesh \<noteq> []"
  then have "wellFormed mesh" "indices mesh \<noteq> []" by simp_all
  from partitionMesh_returns [OF this assms(1,2)]
  show "\<exists>secs. partitionMesh ops w M mesh = Some (Inr secs)" .
next
  fix secs assume ok: "partitionMesh ops w M mesh = Some (Inr secs)"
  define ts where "ts = included mesh (Material + 1)"
  define s where "s = secs ! Material"
  from partitionMesh_result(2) [OF ok assms(1,2) assms(3)]
  have s: "s = fold (emitTriangle ops mesh) ts emptySection"
    by (simp add: s_def ts_def)
  have j: "j < length ts" using assms(4) by (simp add: ts_def)
  note len = section_lengths [OF s]
  have V: "Vertices s = concat (map (\<lambda>t. [scaled ops (position (corner mesh t 2)),
                                   scaled ops (position (corner mesh t 1)),
                                   scaled ops (position (corner mesh t 0))]) ts)"
    unfolding s by (simp add: fold_emit_Vertices emptySection_def)
  have N: "Normals s = concat (map (\<lambda>t. replicate 3 (flatNormal ops mesh t)) ts)"
    unfolding s by (simp add: fold_emit_Normals emptySection_def)
  have T: "Tangents s = concat (map (\<lambda>t. replicate 3 (flatTangent ops mesh t, False)) ts)"
    unfolding s by (simp add: fold_emit_Tangents emptySection_def)
  have v: "Vertices s ! (3 * j + k) =
      [scaled ops (position (corner mesh (ts ! j) 2)), scaled ops (position (corner mesh (ts ! j) 1)),
       scaled ops (position (corner mesh (ts ! j) 0))] ! k" if "k < 3" for k
    unfolding V using j that by (intro nth_concat_blocks) simp_all
  have n: "Normals s ! (3 * j + k) = flatNormal ops mesh (ts ! j)" if "k < 3" for k
  proof -
    have "Normals s ! (3 * j + k) = replicate 3 (flatNormal ops mesh (ts ! j)) ! k"
      unfolding N using j that by (intro nth_concat_blocks) simp_all
    with that show ?thesis by simp
  qed
  have t: "Tangents s ! (3 * j + k) = (flatTangent ops mesh (ts ! j), False)" if "k < 3" for k
  proof -
    have "Tangents s ! (3 * j + k) = replicate 3 (flatTangent ops mesh (ts ! j), False) ! k"
      unfolding T using j that by (intro nth_concat_blocks) simp_all
    with that show ?thesis by simp
  qed
  have f1: "3 * j + 2 < length (Vertices s)" using j len(1) by simp
  have f2: "length (Normals s) = length (Vertices s)" "length (Tangents s) = length (Vertices s)"
    using len by simp_all
  have f3: "Vertices s ! (3 * j) = scaled ops (position (corner mesh (ts ! j) 2))"
    using v [of 0] by simp
  have f4: "Vertices s ! (3 * j + 1) = scaled ops (position (corner mesh (ts ! j) 1))"
    using v [of 1] by simp
  have f5: "Vertices s ! (3 * j + 2) = scaled ops (position (corner mesh (ts ! j) 0))"
    using v [of 2] by simp
  have f6: "\<forall>k < 3. Tangents s ! (3 * j + k) =
        (GetSafeNormal ops (edge ops (position (corner mesh (ts ! j) 1)) (position (corner mesh (ts ! j) 0))), False)
      \<and> Normals s ! (3 * j + k) =
        GetSafeNormal ops (cross ops
          (edge ops (position (corner mesh (ts ! j) 1)) (position (corner mesh (ts ! j) 0)))
          (edge ops (position (corner mesh (ts ! j) 2)) (position (corner mesh (ts ! j) 0))))"
    using n t by (simp add: flatNormal_def flatTangent_def)
  show "let s = secs ! Material;
            t = included mesh (Material + 1) ! j;
            p0 = position (corner mesh t 0);
            p1 = position (corner mesh t 1);
            p2 = position (corner mesh t 2)
        in 3 * j + 2 < length (Vertices s)
           \<and> length (Normals s) = length (Vertices s) \<and> length (Tangents s) = length (Vertices s)
           \<and> Vertices s ! (3 * j) = scaled ops p2
           \<and> Vertices s ! (3 * j + 1) = scaled ops p1
           \<and> Vertices s ! (3 * j + 2) = scaled ops p0
           \<and> (\<forall>k < 3. Tangents s ! (3 * j + k) = (GetSafeNormal ops (edge ops p1 p0), False)
                 \<and> Normals s ! (3 * j + k) =
                     GetSafeNormal ops (cross ops (edge ops p1 p0) (edge ops p2 p0)))"
    unfolding Let_def s_def [symmetric] ts_def [symmetric]
    using f1 f2 f3 f4 f5 f6 by (intro conjI)
qed


theorem triangle_emission_witness:
  "wellFormed mesh1 \<and> indices mesh1 \<noteq> [] \<and> partitionMesh ops1 64 2 mesh1 = Some (Inr sections1)
     \<and> 0 < length (included mesh1 (1 + 1))
     \<and> Vertices (sections1 ! 1) ! (3 * 0) = scaled ops1 (position (corner mesh1 1 2))"
proof -
  have h1: "length (indices mesh1) < 2 ^ 32" by (simp add: mesh1_def)
  have h2: "(32::nat) \<le> 64" by simp
  have h3: "(1::nat) < 2" by simp
  have h4: "0 < length (included mesh1 (1 + 1))" by (simp add: mesh1_included)
  have h5: "wellFormed mesh1" by (rule mesh1_wellFormed)
  have h6: "indices mesh1 \<noteq> []" by (simp add: mesh1_def)
  have h7: "partitionMesh ops1 64 2 mesh1 = Some (Inr sections1)" by (rule mesh1_partition)
  from triangle_emission [OF h1 h2 h3 h4, where ops = ops1] h7
  have "Vertices (sections1 ! 1) ! (3 * 0) = scaled ops1 (position (corner mesh1 1 2))"
    by (simp add: mesh1_included Let_def)
  with h4 h5 h6 h7 show ?thesis by blast
qed

text \<open>
  C7. The partition loop returns its sections on every well-formed mesh that is not empty,
  and whenever it returns them the section of the material \<open>m\<close> in \<open>[1, M]\<close> is made of
  exactly the triangles whose third vertex carries the material \<open>m\<close>: a triangle is among
  them if and only if it is a triangle of the raw mesh and its reference material equals
  \<open>m\<close>. No triangle whose reference material is 0 (Air) is in any section.
\<close>

theorem partition_membership:
  assumes "length (indices mesh) < 2 ^ 32" and "32 \<le> w"
    and "1 \<le> m" and "m \<le> M"
  shows "(wellFormed mesh \<and> indices mesh \<noteq> [] \<longrightarrow> (\<exists>secs. partitionMesh ops w M mesh = Some (Inr secs)))
    \<and> (\<forall>secs. partitionMesh ops w M mesh = Some (Inr secs) \<longrightarrow>
          secs ! (m - 1) = fold (emitTriangle ops mesh) (included mesh m) emptySection)
    \<and> (\<forall>t. t \<in> set (included mesh m) \<longleftrightarrow> t < triangleCount mesh \<and> referenceMaterial mesh t = m)
    \<and> (\<forall>t. referenceMaterial mesh t = 0 \<longrightarrow> t \<notin> set (included mesh m))"
proof (intro conjI allI impI)
  assume "wellFormed mesh \<and> indices mesh \<noteq> []"
  then have "wellFormed mesh" "indices mesh \<noteq> []" by simp_all
  from partitionMesh_returns [OF this assms(1,2)]
  show "\<exists>secs. partitionMesh ops w M mesh = Some (Inr secs)" .
next
  fix secs assume ok: "partitionMesh ops w M mesh = Some (Inr secs)"
  from assms(3,4) have "m - 1 < M" "m - 1 + 1 = m" by simp_all
  with partitionMesh_result(2) [OF ok assms(1,2), of "m - 1"]
  show "secs ! (m - 1) = fold (emitTriangle ops mesh) (included mesh m) emptySection"
    by simp
next
  fix t show "t \<in> set (included mesh m) \<longleftrightarrow> t < triangleCount mesh \<and> referenceMaterial mesh t = m"
    by (rule included_set)
next
  fix t assume "referenceMaterial mesh t = 0"
  with assms(3) show "t \<notin> set (included mesh m)"
    by (simp add: included_set)
qed

theorem partition_membership_witness:
  "wellFormed mesh1 \<and> indices mesh1 \<noteq> [] \<and> partitionMesh ops1 64 2 mesh1 = Some (Inr sections1)
     \<and> sections1 ! 1 = fold (emitTriangle ops1 mesh1) [1] emptySection"
proof -
  have h1: "length (indices mesh1) < 2 ^ 32" by (simp add: mesh1_def)
  have h2: "(32::nat) \<le> 64" by simp
  have h3: "(1::nat) \<le> 2" by simp
  have h4: "(2::nat) \<le> 2" by simp
  have h5: "wellFormed mesh1" by (rule mesh1_wellFormed)
  have h6: "indices mesh1 \<noteq> []" by (simp add: mesh1_def)
  have h7: "partitionMesh ops1 64 2 mesh1 = Some (Inr sections1)" by (rule mesh1_partition)
  from partition_membership [OF h1 h2 h3 h4, where ops = ops1] h7
  have "sections1 ! (2 - 1) = fold (emitTriangle ops1 mesh1) (included mesh1 2) emptySection"
    by blast
  then have "sections1 ! 1 = fold (emitTriangle ops1 mesh1) [1] emptySection"
    by (simp add: mesh1_included numeral_2_eq_2)
  with h5 h6 h7 show ?thesis by blast
qed

text \<open>
  C8. The claim: on every well-formed raw mesh, the empty one included, the partition loop
  ends and reads only positions in range. On the empty mesh the bound
  \<open>getNoOfIndices() - 2\<close> wraps around, the body runs at \<open>i = 0\<close>, and \<open>getIndex(2)\<close>
  reads past the end of the empty index sequence, whether the index count is 32 or 64 bits
  wide.
\<close>

theorem partitionMesh_empty_mesh:
  "partitionMesh (ops :: ('p, 'v) VectorOps) 32 1 emptyMesh = Some (Inl (IndexOutOfRange 2)) \<and>
   partitionMesh ops 64 1 emptyMesh = Some (Inl (IndexOutOfRange 2))"
proof -
  have "length (indices (emptyMesh :: 'p RawMesh)) < 2"
    by (simp add: emptyMesh_def)
  from triangleLoop_short [OF this, of 32 ops 0 emptySection]
    triangleLoop_short [OF this, of 64 ops 0 emptySection]
  show ?thesis
    by (simp add: partitionMesh_def upt_conv_Cons)
qed

text \<open>
  C10. The partition loop returns its sections on every well-formed mesh that is not
  empty, and whenever it returns them the index array of a section is \<open>0, 1, ..., 3 T - 1\<close>
  for its triangle count \<open>T\<close>, so the \<open>k\<close>-th index is \<open>k\<close> and names the \<open>k\<close>-th
  vertex; the section is made of the triangles with the section's material, taken in the
  order of the raw index sequence.
\<close>

theorem section_indices_consecutive:
  assumes "length (indices mesh) < 2 ^ 32" and "32 \<le> w"
    and "Material < M"
  shows "(wellFormed mesh \<and> indices mesh \<noteq> [] \<longrightarrow> (\<exists>secs. partitionMesh ops w M mesh = Some (Inr secs)))
    \<and> (\<forall>secs. partitionMesh ops w M mesh = Some (Inr secs) \<longrightarrow>
          Indices (secs ! Material) = [0..<3 * (length (Indices (secs ! Material)) div 3)]
          \<and> length (Vertices (secs ! Material)) = length (Indices (secs ! Material))
          \<and> (\<forall>k < length (Indices (secs ! Material)). Indices (secs ! Material) ! k = k)
          \<and> length (Indices (secs ! Material)) div 3 = length (included mesh (Material + 1))
          \<and> secs ! Material = fold (emitTriangle ops mesh) (included mesh (Material + 1)) emptySection)
    \<and> sorted_wrt (<) (included mesh (Material + 1))"
proof (intro conjI allI impI)
  assume "wellFormed mesh \<and> indices mesh \<noteq> []"
  then have "wellFormed mesh" "indices mesh \<noteq> []" by simp_all
  from partitionMesh_returns [OF this assms(1,2)]
  show "\<exists>secs. partitionMesh ops w M mesh = Some (Inr secs)" .
next
  show "sorted_wrt (<) (included mesh (Material + 1))" by (rule included_sorted)
next
  fix secs assume ok: "partitionMesh ops w M mesh = Some (Inr secs)"
  from partitionMesh_result(2) [OF ok assms(1,2) assms(3)]
  show s: "secs ! Material = fold (emitTriangle ops mesh) (included mesh (Material + 1)) emptySection" .
  from section_lengths(1,2) [OF s]
  have v: "length (Vertices (secs ! Material)) = 3 * length (included mesh (Material + 1))"
    and i: "Indices (secs ! Material) = [0..<3 * length (included mesh (Material + 1))]" .
  from i have l: "length (Indices (secs ! Material)) = 3 * length (included mesh (Material + 1))"
    by simp
  from i l show "Indices (secs ! Material) = [0..<3 * (length (Indices (secs ! Material)) div 3)]"
    by simp
  from v l show "length (Vertices (secs ! Material)) = length (Indices (secs ! Material))"
    by simp
  from l show "length (Indices (secs ! Material)) div 3 = length (included mesh (Material + 1))"
    by simp
  fix k assume "k < length (Indices (secs ! Material))"
  then show "Indices (secs ! Material) ! k = k"
    unfolding l unfolding i by simp
qed

theorem section_indices_consecutive_witness:
  "wellFormed mesh1 \<and> indices mesh1 \<noteq> [] \<and> partitionMesh ops1 64 2 mesh1 = Some (Inr sections1)
     \<and> Indices (sections1 ! 0) = [0..<3 * (length (Indices (sections1 ! 0)) div 3)]"
proof -
  have h1: "length (indices mesh1) < 2 ^ 32" by (simp add: mesh1_def)
  have h2: "(32::nat) \<le> 64" by simp
  have h3: "(0::nat) < 2" by simp
  have h5: "wellFormed mesh1" by (rule mesh1_wellFormed)
  have h6: "indices mesh1 \<noteq> []" by (simp add: mesh1_def)
  have h7: "partitionMesh ops1 64 2 mesh1 = Some (Inr sections1)" by (rule mesh1_partition)
  from section_indices_consecutive [OF h1 h2 h3, where ops = ops1] h7
  have "Indices (sections1 ! 0) = [0..<3 * (length (Indices (sections1 ! 0)) div 3)]"
    by blast
  with h5 h6 h7 show ?thesis by blast
qed

end
